theory Spec2Isabelle
  imports Main "HOL-Library.Word" "HOL-Library.Multiset" "HOL-Library.List_Lexorder" "HOL-Library.Char_ord"
begin

section \<open>The local-network video server (server.js)\<close>

text \<open>
  The development embeds the two request handlers of \<^verbatim>\<open>server.js\<close>:
  \<^verbatim>\<open>GET /api/videos\<close> (the listing) and \<^verbatim>\<open>GET /api/stream/:name\<close> (the streaming
  endpoint with HTTP Range support), together with the library functions they call.

  Conventions of the model:
  \<^item> JavaScript strings are \<open>string\<close> (lists of 8-bit characters); \<open>toLowerCase\<close> is the
    ASCII mapping.
  \<^item> JavaScript numbers are \<open>int\<close>. The handler only compares, adds and subtracts
    integers, which is exact on numbers below \<open>2 ^ 53\<close>; a file size reported by
    \<^verbatim>\<open>stat\<close> is such a number.
  \<^item> Paths follow the POSIX flavour of Node's \<^verbatim>\<open>path\<close> module (separator \<open>/\<close>).
  \<^item> A thrown or rejected error is a value of type \<open>js_error\<close>, carried in the left
    summand of a sum type; the \<^verbatim>\<open>catch\<close> blocks are branches on it.
  \<^item> The file system is a record of the three operations the handlers use. The streaming
    handler returns, next to its response, the list of file-system calls it made, in order.
  \<^item> The static middleware that line 29 mounts in front of the routes is library code; the
    application is modelled for an arbitrary middleware.
\<close>

subsection \<open>Strings and numbers\<close>

definition is_digit :: "char \<Rightarrow> bool" where
  \<comment> \<open>the regular-expression class \<^verbatim>\<open>\d\<close>\<close>
  "is_digit c = (c \<in> set ''0123456789'')"

definition digit_val :: "char \<Rightarrow> int" where
  "digit_val c = int (of_char c) - 48"

definition parseInt :: "string \<Rightarrow> int" where
  \<comment> \<open>\<^verbatim>\<open>parseInt(s, 10)\<close> on a string that starts with a digit: the value of its
      leading run of decimal digits\<close>
  "parseInt s = foldl (\<lambda>acc c. acc * 10 + digit_val c) 0 (takeWhile is_digit s)"

definition digit_char :: "nat \<Rightarrow> char" where
  "digit_char d = ''0123456789'' ! d"

fun digits :: "nat \<Rightarrow> string" where
  "digits n = (if n < 10 then [digit_char n] else digits (n div 10) @ [digit_char (n mod 10)])"

declare digits.simps [simp del]

definition number_toString :: "int \<Rightarrow> string" where
  \<comment> \<open>an integer inside a template literal, \<^verbatim>\<open>`${n}`\<close>\<close>
  "number_toString i = (if i < 0 then CHR ''-'' # digits (nat (- i)) else digits (nat i))"

definition lower_char :: "char \<Rightarrow> char" where
  "lower_char c = (let n = (of_char c :: nat) in if 65 \<le> n \<and> n \<le> 90 then char_of (n + 32) else c)"

definition toLowerCase :: "string \<Rightarrow> string" where
  "toLowerCase s = map lower_char s"

subsection \<open>Node's \<^verbatim>\<open>path\<close> module\<close>

definition is_slash :: "char \<Rightarrow> bool" where
  "is_slash c = (c = CHR ''/'')"

definition basename :: "string \<Rightarrow> string" where
  \<comment> \<open>\<^verbatim>\<open>path.basename(p)\<close>: scanning from the right, skip the trailing separators, then
      take the characters up to the next separator\<close>
  "basename p = rev (takeWhile (\<lambda>c. \<not> is_slash c) (dropWhile is_slash (rev p)))"

definition extname :: "string \<Rightarrow> string" where
  \<comment> \<open>\<^verbatim>\<open>path.extname(p)\<close>: within the last path component, the text from the last dot on;
      empty when there is no dot, when the last dot is the component's first character,
      and when the component is \<open>..\<close>\<close>
  "extname p =
     (let b = basename p;
          post = rev (takeWhile (\<lambda>c. c \<noteq> CHR ''.'') (rev b));
          pre = take (length b - length post - 1) b
      in if CHR ''.'' \<notin> set b \<or> pre = [] \<or> b = ''..'' then [] else CHR ''.'' # post)"

datatype media_dir = PUBLIC_DIR | VIDEOS_DIR | PICTURES_DIR

type_synonym path = "media_dir \<times> string"

definition path_join :: "media_dir \<Rightarrow> string \<Rightarrow> path" where
  \<comment> \<open>\<^verbatim>\<open>path.join(baseDir, safeName)\<close> for a name without separator that is neither
      \<open>.\<close> nor \<open>..\<close>: the entry of that name in the directory\<close>
  "path_join baseDir safeName = (baseDir, safeName)"

subsection \<open>Configuration\<close>

definition VIDEO_EXTENSIONS :: "string set" where
  "VIDEO_EXTENSIONS = {''.mp4'', ''.webm''}"

definition IMAGE_EXTENSIONS :: "string set" where
  "IMAGE_EXTENSIONS = {''.jpg'', ''.jpeg''}"

definition ALLOWED_EXTENSIONS :: "string set" where
  "ALLOWED_EXTENSIONS = VIDEO_EXTENSIONS \<union> IMAGE_EXTENSIONS"

subsection \<open>Errors and the file system\<close>

datatype js_error = JsError (code: "string option")

type_synonym byte = "8 word"

datatype dirent = Dirent (name: string) (isFile: bool)

record filesystem =
  stat :: "path \<Rightarrow> js_error + nat"
  open_read :: "path \<Rightarrow> js_error + byte list"
  readdir :: "media_dir \<Rightarrow> js_error + dirent list"

datatype fs_op = Stat path | CreateReadStream path "(int \<times> int) option"

definition createReadStream :: "filesystem \<Rightarrow> path \<Rightarrow> (int \<times> int) option \<Rightarrow> js_error + byte list" where
  \<comment> \<open>\<^verbatim>\<open>fs.createReadStream(path, {start, end})\<close>: both offsets inclusive; without
      options the whole file\<close>
  "createReadStream fs p opts =
     (case open_read fs p of
        Inl err \<Rightarrow> Inl err
      | Inr content \<Rightarrow>
          Inr (case opts of
                 None \<Rightarrow> content
               | Some (start, end) \<Rightarrow> take (nat (end - start + 1)) (drop (nat start) content)))"

definition pipe :: "js_error + byte list \<Rightarrow> byte list" where
  \<comment> \<open>\<^verbatim>\<open>stream.pipe(res)\<close> with the \<^verbatim>\<open>"error"\<close> listener that ends the response\<close>
  "pipe stream = (case stream of Inl err \<Rightarrow> [] | Inr bytes \<Rightarrow> bytes)"

subsection \<open>Responses\<close>

datatype header_value = Str string | Num int

datatype body = Text string | Bytes "byte list"

record response =
  status :: nat
  headers :: "(string \<times> header_value) list"
  body :: body

definition send :: "nat \<Rightarrow> string \<Rightarrow> response" where
  \<comment> \<open>\<^verbatim>\<open>res.status(code).send(text)\<close>; the headers Express adds on its own are left out\<close>
  "send st txt = \<lparr>status = st, headers = [], body = Text txt\<rparr>"

subsection \<open>The Range header\<close>

definition match_here :: "string \<Rightarrow> (string \<times> string) option" where
  \<comment> \<open>the pattern \<^verbatim>\<open>bytes=(\d+)-(\d*)\<close> tried at the start of the text; both groups are
      greedy, and giving back digits of the first can never reach the \<open>-\<close>\<close>
  "match_here s =
     (if take 6 s = ''bytes='' then
        (let r = drop 6 s; m1 = takeWhile is_digit r in
         if m1 = [] then None
         else (case dropWhile is_digit r of
                 [] \<Rightarrow> None
               | c # r2 \<Rightarrow> if c = CHR ''-'' then Some (m1, takeWhile is_digit r2) else None))
      else None)"

fun match_range :: "string \<Rightarrow> (string \<times> string) option" where
  \<comment> \<open>\<^verbatim>\<open>range.match(/bytes=(\d+)-(\d*)/)\<close>: the pattern has no anchors, so the leftmost
      position where it matches wins\<close>
  "match_range [] = None"
| "match_range (c # cs) =
     (case match_here (c # cs) of Some m \<Rightarrow> Some m | None \<Rightarrow> match_range cs)"

definition truthy :: "string option \<Rightarrow> bool" where
  \<comment> \<open>\<^verbatim>\<open>if (range)\<close>: \<^verbatim>\<open>undefined\<close> and the empty string are falsy\<close>
  "truthy h = (case h of None \<Rightarrow> False | Some s \<Rightarrow> s \<noteq> [])"

subsection \<open>\<^verbatim>\<open>GET /api/stream/:name\<close>\<close>

definition getContentType :: "string \<Rightarrow> string" where
  "getContentType fileName =
     (let ext = toLowerCase (extname fileName) in
      if ext = ''.mp4'' then ''video/mp4''
      else if ext = ''.webm'' then ''video/webm''
      else if ext = ''.jpg'' \<or> ext = ''.jpeg'' then ''image/jpeg''
      else ''application/octet-stream'')"

definition on_catch :: "js_error \<Rightarrow> response" where
  \<comment> \<open>the \<^verbatim>\<open>catch\<close> block of the streaming handler\<close>
  "on_catch err =
     (if code err = Some ''ENOENT'' then send 404 ''Not found.'' else send 500 ''Server error.'')"

definition serve :: "filesystem \<Rightarrow> path \<Rightarrow> string \<Rightarrow> nat \<Rightarrow> string option \<Rightarrow> fs_op list \<times> response" where
  \<comment> \<open>the handler after the successful \<^verbatim>\<open>stat\<close>: lines 113 to 164\<close>
  "serve fs videoPath contentType fileSize range_header =
     (if truthy range_header then
        (case match_range (the range_header) of
           None \<Rightarrow> ([Stat videoPath], send 416 ''Malformed Range header.'')
         | Some (m1, m2) \<Rightarrow>
             (let start = parseInt m1;
                  end = (if m2 \<noteq> [] then parseInt m2 else int fileSize - 1) in
              if start \<ge> int fileSize \<or> end \<ge> int fileSize \<or> start > end
              then ([Stat videoPath], send 416 ''Requested range not satisfiable.'')
              else
                (let chunkSize = end - start + 1 in
                 ([Stat videoPath, CreateReadStream videoPath (Some (start, end))],
                  \<lparr>status = 206,
                   headers =
                     [(''Content-Range'',
                       Str (''bytes '' @ number_toString start @ ''-'' @ number_toString end
                            @ ''/'' @ number_toString (int fileSize))),
                      (''Accept-Ranges'', Str ''bytes''),
                      (''Content-Length'', Num chunkSize),
                      (''Content-Type'', Str contentType)],
                   body = Bytes (pipe (createReadStream fs videoPath (Some (start, end))))\<rparr>))))
      else
        ([Stat videoPath, CreateReadStream videoPath None],
         \<lparr>status = 200,
          headers = [(''Content-Length'', Num (int fileSize)), (''Content-Type'', Str contentType)],
          body = Bytes (pipe (createReadStream fs videoPath None))\<rparr>))"

definition resolve :: "(string \<Rightarrow> js_error + string) \<Rightarrow> string \<Rightarrow> response + string \<times> path" where
  \<comment> \<open>lines 92 to 107 of the handler: the checks on the name, up to \<^verbatim>\<open>videoPath\<close>.
      \<open>decodeURIComponent\<close> is the built-in, which throws on a malformed escape;
      \<open>param_name\<close> is \<^verbatim>\<open>req.params.name\<close>. The result is the response already sent,
      or \<^verbatim>\<open>safeName\<close> and \<^verbatim>\<open>videoPath\<close>\<close>
  "resolve decodeURIComponent param_name =
     (case decodeURIComponent param_name of
        Inl err \<Rightarrow> Inl (on_catch err)
      | Inr requestedName \<Rightarrow>
          (let safeName = basename requestedName in
           if safeName \<noteq> requestedName then Inl (send 400 ''Invalid file name.'')
           else
             (let ext = toLowerCase (extname safeName) in
              if ext \<notin> ALLOWED_EXTENSIONS then Inl (send 415 ''Unsupported media type.'')
              else
                (let baseDir = (if ext \<in> VIDEO_EXTENSIONS then VIDEOS_DIR else PICTURES_DIR);
                     videoPath = path_join baseDir safeName in
                 Inr (safeName, videoPath)))))"

definition stream_handler ::
  "(string \<Rightarrow> js_error + string) \<Rightarrow> filesystem \<Rightarrow> string \<Rightarrow> string option
     \<Rightarrow> fs_op list \<times> response" where
  \<comment> \<open>the whole handler; \<open>range_header\<close> is \<^verbatim>\<open>req.headers.range\<close>. The first component
      lists the file-system calls made, in order\<close>
  "stream_handler decodeURIComponent fs param_name range_header =
     (case resolve decodeURIComponent param_name of
        Inl res \<Rightarrow> ([], res)
      | Inr (safeName, videoPath) \<Rightarrow>
          (case stat fs videoPath of
             Inl err \<Rightarrow> ([Stat videoPath], on_catch err)
           | Inr fileSize \<Rightarrow>
               serve fs videoPath (getContentType safeName) fileSize range_header))"

subsection \<open>The application: static middleware, then the route\<close>

text \<open>
  Line 29, \<^verbatim>\<open>app.use(express.static(PUBLIC_DIR))\<close>, mounts the static middleware in front of
  the routes: every request passes through it first, and reaches a route only when the
  middleware calls \<^verbatim>\<open>next()\<close>. The middleware is library code; the application is modelled
  for an arbitrary middleware, given as the function from the file system and the request to
  the file-system calls it makes and its answer (\<open>None\<close> when it passes the request on).
\<close>

record request =
  req_path :: string
  req_name :: string
  req_range :: "string option"

type_synonym middleware = "filesystem \<Rightarrow> request \<Rightarrow> fs_op list \<times> response option"

definition app_stream ::
  "middleware \<Rightarrow> (string \<Rightarrow> js_error + string) \<Rightarrow> filesystem \<Rightarrow> request
     \<Rightarrow> fs_op list \<times> response" where
  \<comment> \<open>a \<^verbatim>\<open>GET\<close> request that Express routes to \<^verbatim>\<open>/api/stream/:name\<close>: \<open>req_path\<close> is
      \<^verbatim>\<open>req.path\<close>, \<open>req_name\<close> is \<^verbatim>\<open>req.params.name\<close>, \<open>req_range\<close> is \<^verbatim>\<open>req.headers.range\<close>\<close>
  "app_stream static decodeURIComponent fs req =
     (case static fs req of
        (ops, Some res) \<Rightarrow> (ops, res)
      | (ops, None) \<Rightarrow>
          (case stream_handler decodeURIComponent fs (req_name req) (req_range req) of
             (ops', res) \<Rightarrow> (ops @ ops', res)))"

definition public_lookup :: middleware where
  \<comment> \<open>\<^verbatim>\<open>express.static(PUBLIC_DIR)\<close> on a \<^verbatim>\<open>GET\<close> request without Range or conditional headers
      whose path is \<open>/\<close> followed by plain segments (no escape, no empty segment, none that
      starts with a dot) and does not name a directory: the path is looked up under
      \<^verbatim>\<open>public\<close> with \<^verbatim>\<open>stat\<close>; a file found
      there is sent (of its headers only the length is kept); when nothing is there the
      request is passed on; any other failure ends the request with status 500 (the error
      page is left out)\<close>
  "public_lookup fs req =
     (let p = (PUBLIC_DIR, drop 1 (req_path req)) in
      case stat fs p of
        Inl err \<Rightarrow>
          ([Stat p],
           if code err \<in> {Some ''ENOENT'', Some ''ENAMETOOLONG'', Some ''ENOTDIR''} then None
           else Some \<lparr>status = 500, headers = [], body = Text []\<rparr>)
      | Inr fileSize \<Rightarrow>
          ([Stat p, CreateReadStream p None],
           Some \<lparr>status = 200, headers = [(''Content-Length'', Num (int fileSize))],
                 body = Bytes (pipe (createReadStream fs p None))\<rparr>))"

subsection \<open>\<^verbatim>\<open>GET /api/videos\<close>\<close>

fun insert_by :: "('a \<Rightarrow> 'a \<Rightarrow> int) \<Rightarrow> 'a \<Rightarrow> 'a list \<Rightarrow> 'a list" where
  "insert_by cmp x [] = [x]"
| "insert_by cmp x (y # ys) = (if cmp x y \<le> 0 then x # y # ys else y # insert_by cmp x ys)"

definition sort_by :: "('a \<Rightarrow> 'a \<Rightarrow> int) \<Rightarrow> 'a list \<Rightarrow> 'a list" where
  \<comment> \<open>\<^verbatim>\<open>Array.prototype.sort(compareFn)\<close>, which is stable: an element goes in front of
      the first later element it does not exceed\<close>
  "sort_by cmp xs = foldr (insert_by cmp) xs []"

datatype json = MediaLists (videos: "string list") (pictures: "string list") | ErrorObject string

record json_response =
  json_status :: nat
  json_body :: json

definition readdir_or_empty :: "filesystem \<Rightarrow> media_dir \<Rightarrow> js_error + dirent list" where
  \<comment> \<open>\<^verbatim>\<open>fsp.readdir(dir, { withFileTypes: true }).catch(...)\<close>\<close>
  "readdir_or_empty fs dir =
     (case readdir fs dir of
        Inl err \<Rightarrow> if code err = Some ''ENOENT'' then Inr [] else Inl err
      | Inr entries \<Rightarrow> Inr entries)"

definition media_files :: "string set \<Rightarrow> dirent list \<Rightarrow> string list" where
  \<comment> \<open>the chain \<^verbatim>\<open>filter(isFile).map(name).filter(extension)\<close>\<close>
  "media_files exts entries =
     filter (\<lambda>nm. toLowerCase (extname nm) \<in> exts) (map name (filter isFile entries))"

definition list_handler :: "(string \<Rightarrow> string \<Rightarrow> int) \<Rightarrow> filesystem \<Rightarrow> json_response" where
  \<comment> \<open>\<open>localeCompare\<close> is the built-in collation, \<^verbatim>\<open>a.localeCompare(b)\<close>\<close>
  "list_handler localeCompare fs =
     (case readdir_or_empty fs VIDEOS_DIR of
        Inl err \<Rightarrow> \<lparr>json_status = 500, json_body = ErrorObject ''Could not read media folders.''\<rparr>
      | Inr videoEntries \<Rightarrow>
          (case readdir_or_empty fs PICTURES_DIR of
             Inl err \<Rightarrow>
               \<lparr>json_status = 500, json_body = ErrorObject ''Could not read media folders.''\<rparr>
           | Inr pictureEntries \<Rightarrow>
               (let videoFiles = media_files VIDEO_EXTENSIONS videoEntries;
                    pictureFiles = media_files IMAGE_EXTENSIONS pictureEntries in
                \<lparr>json_status = 200,
                 json_body = MediaLists (sort_by localeCompare videoFiles)
                                        (sort_by localeCompare pictureFiles)\<rparr>)))"

subsection \<open>Reading the specification\<close>

definition single_range_form :: "string \<Rightarrow> bool" where
  \<comment> \<open>the grammar of the specification, \<^verbatim>\<open>bytes=<start>-<end?>\<close>, for the whole header value\<close>
  "single_range_form h =
     (take 6 h = ''bytes='' \<and>
      (let r = drop 6 h in
       takeWhile is_digit r \<noteq> [] \<and>
       (case dropWhile is_digit r of
          [] \<Rightarrow> False
        | c # de \<Rightarrow> c = CHR ''-'' \<and> list_all is_digit de)))"

definition piece_body ::
  "(string \<Rightarrow> js_error + string) \<Rightarrow> filesystem \<Rightarrow> string \<Rightarrow> int \<Rightarrow> int \<Rightarrow> byte list" where
  \<comment> \<open>what a client collects for the interval \<open>[lo, hi)\<close>: it asks for
      \<^verbatim>\<open>bytes=lo-(hi-1)\<close> and keeps the body when the request succeeds with 206\<close>
  "piece_body decodeURIComponent fs param_name lo hi =
     (let res = snd (stream_handler decodeURIComponent fs param_name
                       (Some (''bytes='' @ number_toString lo @ ''-'' @ number_toString (hi - 1))))
      in if status res = 206 then (case body res of Bytes bs \<Rightarrow> bs | Text t \<Rightarrow> []) else [])"

subsection \<open>A sample installation\<close>

definition demo_stat :: "path \<Rightarrow> js_error + nat" where
  "demo_stat p =
     (if p = (VIDEOS_DIR, ''a.mp4'') then Inr 3
      else if p = (VIDEOS_DIR, ''empty.mp4'') then Inr 0
      else if p = (VIDEOS_DIR, ''locked.mp4'') then Inr 3
      else if p = (VIDEOS_DIR, ''noperm.mp4'') then Inl (JsError (Some ''EACCES''))
      else Inl (JsError (Some ''ENOENT'')))"

definition demo_open :: "path \<Rightarrow> js_error + byte list" where
  "demo_open p =
     (if p = (VIDEOS_DIR, ''a.mp4'') then Inr [10, 20, 30]
      else if p = (VIDEOS_DIR, ''empty.mp4'') then Inr []
      else if p = (VIDEOS_DIR, ''locked.mp4'') then Inl (JsError (Some ''EACCES''))
      else if p = (VIDEOS_DIR, ''noperm.mp4'') then Inl (JsError (Some ''EACCES''))
      else Inl (JsError (Some ''ENOENT'')))"

definition demo_readdir :: "media_dir \<Rightarrow> js_error + dirent list" where
  \<comment> \<open>nothing under \<^verbatim>\<open>public\<close>; no directory of videos; a directory of pictures with a
      sub-directory in it\<close>
  "demo_readdir d =
     (case d of
        PUBLIC_DIR \<Rightarrow> Inr []
      | VIDEOS_DIR \<Rightarrow> Inl (JsError (Some ''ENOENT''))
      | PICTURES_DIR \<Rightarrow>
          Inr [Dirent ''b.JPG'' True, Dirent ''a.jpeg'' True, Dirent ''sub.jpg'' False,
               Dirent ''notes.txt'' True])"


definition demo_fs :: filesystem where
  "demo_fs = \<lparr>stat = demo_stat, open_read = demo_open, readdir = demo_readdir\<rparr>"


definition codepoint_compare :: "string \<Rightarrow> string \<Rightarrow> int" where
  \<comment> \<open>a collation to run the listing with: the order of the character codes\<close>
  "codepoint_compare a b = (if a < b then - 1 else if a = b then 0 else 1)"

section \<open>Auxiliary facts\<close>

subsection \<open>Decimal numerals\<close>

lemma digit_char_cases: "d < 10 \<Longrightarrow> d \<in> {0,1,2,3,4,5,6,7,8,9::nat}" by auto

lemma is_digit_digit_char: "d < 10 \<Longrightarrow> is_digit (digit_char d)"
  using digit_char_cases[of d] by (auto simp: is_digit_def digit_char_def)

lemma digit_val_digit_char: "d < 10 \<Longrightarrow> digit_val (digit_char d) = int d"
  using digit_char_cases[of d] by (auto simp: digit_val_def digit_char_def)

lemma is_digit_range: "is_digit c \<Longrightarrow> 48 \<le> (of_char c :: nat) \<and> (of_char c :: nat) \<le> 57"
  by (auto simp: is_digit_def)

lemma digit_val_nonneg: "is_digit c \<Longrightarrow> 0 \<le> digit_val c"
  using is_digit_range[of c] by (simp add: digit_val_def)

lemma not_digit_minus: "\<not> is_digit CHR ''-''" by (simp add: is_digit_def)

lemma digits_nonempty: "digits n \<noteq> []"
  by (subst digits.simps) simp

lemma digits_all_digit: "list_all is_digit (digits n)"
proof (induction n rule: digits.induct)
  case (1 n)
  show ?case
  proof (cases "n < 10")
    case True
    then show ?thesis by (subst digits.simps) (simp add: is_digit_digit_char)
  next
    case False
    with 1 show ?thesis by (subst digits.simps) (simp add: is_digit_digit_char)
  qed
qed

lemma takeWhile_all: "list_all P xs \<Longrightarrow> takeWhile P xs = xs"
  by (induction xs) auto

lemma parseInt_all_digits: "list_all is_digit s \<Longrightarrow> parseInt s = foldl (\<lambda>acc c. acc * 10 + digit_val c) 0 s"
  by (simp add: parseInt_def takeWhile_all)

lemma parseInt_digits: "parseInt (digits n) = int n"
proof (induction n rule: digits.induct)
  case (1 n)
  show ?case
  proof (cases "n < 10")
    case True
    then show ?thesis
      by (subst digits.simps) (simp add: parseInt_def is_digit_digit_char digit_val_digit_char)
  next
    case False
    have all: "list_all is_digit (digits (n div 10) @ [digit_char (n mod 10)])"
      by (simp add: digits_all_digit is_digit_digit_char)
    have "parseInt (digits n) = parseInt (digits (n div 10) @ [digit_char (n mod 10)])"
      using False by (subst digits.simps) simp
    also have "\<dots> = parseInt (digits (n div 10)) * 10 + digit_val (digit_char (n mod 10))"
      using all by (simp add: parseInt_all_digits digits_all_digit)
    also have "\<dots> = int (n div 10) * 10 + int (n mod 10)"
      using 1 False by (simp add: digit_val_digit_char)
    also have "\<dots> = int n" by presburger
    finally show ?thesis .
  qed
qed

lemma foldl_digits_nonneg: "0 \<le> a \<Longrightarrow> list_all is_digit s \<Longrightarrow> 0 \<le> foldl (\<lambda>acc c. acc * 10 + digit_val c) a s"
  by (induction s arbitrary: a) (auto simp: digit_val_nonneg)

lemma list_all_takeWhile: "list_all P (takeWhile P xs)"
  by (induction xs) auto

lemma parseInt_nonneg: "0 \<le> parseInt s"
  unfolding parseInt_def by (rule foldl_digits_nonneg) (simp_all add: list_all_takeWhile)

lemma takeWhile_stop: "list_all P xs \<Longrightarrow> \<not> P y \<Longrightarrow> takeWhile P (xs @ y # ys) = xs"
  by (induction xs) auto

lemma dropWhile_stop: "list_all P xs \<Longrightarrow> \<not> P y \<Longrightarrow> dropWhile P (xs @ y # ys) = y # ys"
  by (induction xs) auto

lemma match_here_form:
  "ds \<noteq> [] \<Longrightarrow> list_all is_digit ds \<Longrightarrow>
   match_here (''bytes='' @ ds @ CHR ''-'' # rest) = Some (ds, takeWhile is_digit rest)"
  by (simp add: match_here_def takeWhile_stop dropWhile_stop not_digit_minus)

lemma match_range_form:
  "ds \<noteq> [] \<Longrightarrow> list_all is_digit ds \<Longrightarrow>
   match_range (''bytes='' @ ds @ CHR ''-'' # rest) = Some (ds, takeWhile is_digit rest)"
  using match_here_form[of ds rest] by simp

lemma match_here_head: "match_here s = Some m \<Longrightarrow> \<exists>t. s = CHR ''b'' # t"
  by (cases s) (auto simp: match_here_def split: if_splits)

lemma match_range_no_b: "CHR ''b'' \<notin> set s \<Longrightarrow> match_range s = None"
proof (induction s)
  case Nil then show ?case by simp
next
  case (Cons c cs)
  then have "match_here (c # cs) = None"
    using match_here_head[of "c # cs"] by (cases "match_here (c # cs)") auto
  with Cons show ?case by simp
qed

lemma is_digit_not_b: "is_digit c \<Longrightarrow> c \<noteq> CHR ''b''" by (auto simp: is_digit_def)

lemma match_range_suffix_form:
  assumes "list_all is_digit ds"
  shows "match_range (''bytes=-'' @ ds) = None"
proof -
  have nb: "CHR ''b'' \<notin> set (''ytes=-'' @ ds)"
    using assms is_digit_not_b by (auto simp: list_all_iff)
  have "match_here (''bytes=-'' @ ds) = None"
    by (simp add: match_here_def not_digit_minus)
  moreover have "match_range (''ytes=-'' @ ds) = None"
    by (rule match_range_no_b[OF nb])
  ultimately show ?thesis by simp
qed

lemma basename_self: "(basename r = r) = (CHR ''/'' \<notin> set r)"
proof
  assume "basename r = r"
  then have "set r = set (takeWhile (\<lambda>c. \<not> is_slash c) (dropWhile is_slash (rev r)))"
    by (metis basename_def set_rev)
  then show "CHR ''/'' \<notin> set r"
    using set_takeWhileD[of "CHR ''/''" "\<lambda>c. \<not> is_slash c"] by (auto simp: is_slash_def)
next
  assume a: "CHR ''/'' \<notin> set r"
  then have 1: "dropWhile is_slash (rev r) = rev r"
    by (cases "rev r") (auto simp: is_slash_def)
  have 2: "takeWhile (\<lambda>c. \<not> is_slash c) (rev r) = rev r"
    using a by (intro takeWhile_eq_all_conv[THEN iffD2]) (auto simp: is_slash_def)
  show "basename r = r" by (simp add: basename_def 1 2)
qed

subsection \<open>Slices of a file\<close>

lemma take_drop_slice:
  "a + n \<le> length xs \<Longrightarrow> take n (drop a xs) = map ((!) xs) [a..<a + n]"
  by (simp add: list_eq_iff_nth_eq)

lemma serve_range:
  assumes m: "match_range hdr = Some (m1, m2)" and ne: "hdr \<noteq> []"
    and s: "parseInt m1 = int a" and e: "(if m2 \<noteq> [] then parseInt m2 else int N - 1) = int b"
    and ab: "a \<le> b" and bN: "b < N"
  shows "serve fs p ct N (Some hdr) =
     ([Stat p, CreateReadStream p (Some (int a, int b))],
      \<lparr>status = 206,
       headers = [(''Content-Range'', Str (''bytes '' @ digits a @ ''-'' @ digits b @ ''/'' @ digits N)),
                  (''Accept-Ranges'', Str ''bytes''),
                  (''Content-Length'', Num (int b - int a + 1)),
                  (''Content-Type'', Str ct)],
       body = Bytes (pipe (createReadStream fs p (Some (int a, int b))))\<rparr>)"
  using assms by (simp add: serve_def truthy_def Let_def number_toString_def)

lemma pipe_slice:
  assumes "open_read fs p = Inr content" "a \<le> b" "b < length content"
  shows "pipe (createReadStream fs p (Some (int a, int b))) = map ((!) content) [a..<Suc b]"
proof -
  have "nat (int b - int a + 1) = Suc b - a" using assms by simp
  moreover have "take (Suc b - a) (drop a content) = map ((!) content) [a..<a + (Suc b - a)]"
    using assms by (intro take_drop_slice) simp
  ultimately show ?thesis using assms by (simp add: pipe_def createReadStream_def)
qed

subsection \<open>The sample installation\<close>

lemma resolve_demo_a: "resolve Inr ''a.mp4'' = Inr (''a.mp4'', (VIDEOS_DIR, ''a.mp4''))"
  by code_simp

lemma resolve_demo_empty: "resolve Inr ''empty.mp4'' = Inr (''empty.mp4'', (VIDEOS_DIR, ''empty.mp4''))"
  by code_simp




lemma demo_stat_a: "stat demo_fs (VIDEOS_DIR, ''a.mp4'') = Inr 3"
  by (simp add: demo_fs_def demo_stat_def)

lemma content_type_mp4: "getContentType ''a.mp4'' = ''video/mp4''"
  by code_simp

subsection \<open>The handler after a successful stat\<close>

lemma serve_matched:
  assumes "hdr \<noteq> []" "match_range hdr = Some (m1, m2)"
  shows "serve fs p ct N (Some hdr) =
     (let start = parseInt m1; end = (if m2 \<noteq> [] then parseInt m2 else int N - 1) in
      if start \<ge> int N \<or> end \<ge> int N \<or> start > end
      then ([Stat p], send 416 ''Requested range not satisfiable.'')
      else ([Stat p, CreateReadStream p (Some (start, end))],
            \<lparr>status = 206,
             headers = [(''Content-Range'',
                          Str (''bytes '' @ number_toString start @ ''-'' @ number_toString end
                               @ ''/'' @ number_toString (int N))),
                        (''Accept-Ranges'', Str ''bytes''),
                        (''Content-Length'', Num (end - start + 1)),
                        (''Content-Type'', Str ct)],
             body = Bytes (pipe (createReadStream fs p (Some (start, end))))\<rparr>))"
  using assms by (simp add: serve_def truthy_def Let_def)

lemma serve_stream_bounds:
  assumes "CreateReadStream q (Some (s, e)) \<in> set (fst (serve fs p ct N h))"
  shows "q = p \<and> 0 \<le> s \<and> s \<le> e \<and> e < int N"
  using assms parseInt_nonneg
  by (auto simp: serve_def Let_def send_def split: if_splits option.splits prod.splits)

lemma handler_stream_bounds:
  assumes "CreateReadStream q (Some (s, e)) \<in> set (fst (stream_handler d fs n h))"
  shows "\<exists>N. stat fs q = Inr N \<and> 0 \<le> s \<and> s \<le> e \<and> e < int N"
  using assms serve_stream_bounds
  by (fastforce simp: stream_handler_def split: sum.splits prod.splits)

subsection \<open>Where the pattern matches\<close>

lemma match_tail_split:
  assumes "(let m = takeWhile is_digit r in
            if m = [] then None
            else (case dropWhile is_digit r of
                    [] \<Rightarrow> None
                  | c # r2 \<Rightarrow> if c = CHR ''-'' then Some (m, takeWhile is_digit r2) else None))
           = Some (m1, m2)"
  shows "\<exists>rest. r = m1 @ CHR ''-'' # rest \<and> m1 \<noteq> [] \<and> list_all is_digit m1
               \<and> m2 = takeWhile is_digit rest"
proof -
  let ?m = "takeWhile is_digit r" and ?d = "dropWhile is_digit r"
  have e: "(if ?m = [] then None
            else (case ?d of
                    [] \<Rightarrow> None
                  | c # r2 \<Rightarrow> if c = CHR ''-'' then Some (?m, takeWhile is_digit r2) else None))
           = Some (m1, m2)"
    using assms unfolding Let_def .
  have ne: "?m \<noteq> []"
  proof
    assume "?m = []"
    with e have "(None :: (string \<times> string) option) = Some (m1, m2)" by (simp only: if_True if_False simp_thms)
    then show False by (simp only: option.distinct)
  qed
  with e have e2: "(case ?d of
                    [] \<Rightarrow> None
                  | c # r2 \<Rightarrow> if c = CHR ''-'' then Some (?m, takeWhile is_digit r2) else None)
           = Some (m1, m2)" by (simp only: if_True if_False simp_thms)
  show ?thesis
  proof (cases ?d)
    case Nil
    with e2 have "(None :: (string \<times> string) option) = Some (m1, m2)" by (simp only: list.case simp_thms)
    then show ?thesis by (simp only: option.distinct)
  next
    case (Cons c r2)
    with e2 have e3: "(if c = CHR ''-'' then Some (?m, takeWhile is_digit r2) else None) = Some (m1, m2)"
      by (simp only: list.case simp_thms)
    have c: "c = CHR ''-''"
    proof (rule ccontr)
      assume "c \<noteq> CHR ''-''"
      with e3 have "(None :: (string \<times> string) option) = Some (m1, m2)" by (simp only: if_True if_False simp_thms)
      then show False by (simp only: option.distinct)
    qed
    with e3 have "Some (?m, takeWhile is_digit r2) = Some (m1, m2)" by (simp only: if_True if_False simp_thms)
    then have m: "m1 = ?m" "m2 = takeWhile is_digit r2" by (simp_all only: option.inject prod.inject)
    have "?m @ ?d = r" by (rule takeWhile_dropWhile_id)
    then have "r = m1 @ CHR ''-'' # r2" by (simp only: m(1) Cons c)
    moreover have "list_all is_digit m1" unfolding m(1) by (rule list_all_takeWhile)
    moreover have "m1 \<noteq> []" unfolding m(1) by (rule ne)
    ultimately show ?thesis using m(2) by blast
  qed
qed

lemma match_here_occurrence:
  assumes "match_here s = Some (m1, m2)"
  shows "\<exists>rest. s = ''bytes='' @ m1 @ CHR ''-'' # rest \<and> m1 \<noteq> [] \<and> list_all is_digit m1
               \<and> m2 = takeWhile is_digit rest"
proof -
  have t: "take 6 s = ''bytes=''"
  proof (rule ccontr)
    assume "take 6 s \<noteq> ''bytes=''"
    then have "match_here s = None" unfolding match_here_def by (rule if_not_P)
    with assms show False by simp
  qed
  define r where "r = drop 6 s"
  have "match_here s = (let m = takeWhile is_digit r in
            if m = [] then None
            else (case dropWhile is_digit r of
                    [] \<Rightarrow> None
                  | c # r2 \<Rightarrow> if c = CHR ''-'' then Some (m, takeWhile is_digit r2) else None))"
    unfolding match_here_def r_def Let_def using t by (rule if_P)
  with assms match_tail_split[of r m1 m2]
  obtain rest where r: "r = m1 @ CHR ''-'' # rest" and o: "m1 \<noteq> []" "list_all is_digit m1"
    "m2 = takeWhile is_digit rest" by auto
  have "take 6 s @ drop 6 s = s" by (rule append_take_drop_id)
  then have "''bytes='' @ r = s" by (simp only: t r_def)
  then have "s = ''bytes='' @ m1 @ CHR ''-'' # rest" by (simp only: r)
  with o show ?thesis by blast
qed

lemma match_range_iff_occurrence:
  "(match_range h \<noteq> None) =
     (\<exists>pre ds rest. h = pre @ ''bytes='' @ ds @ CHR ''-'' # rest \<and> ds \<noteq> [] \<and> list_all is_digit ds)"
proof
  assume "match_range h \<noteq> None"
  then show "\<exists>pre ds rest. h = pre @ ''bytes='' @ ds @ CHR ''-'' # rest \<and> ds \<noteq> [] \<and> list_all is_digit ds"
  proof (induction h)
    case Nil
    then show ?case by simp
  next
    case (Cons c cs)
    show ?case
    proof (cases "match_here (c # cs)")
      case (Some m)
      obtain m1 m2 where "m = (m1, m2)" by (cases m)
      with Some match_here_occurrence[of "c # cs" m1 m2]
      obtain rest where "c # cs = [] @ ''bytes='' @ m1 @ CHR ''-'' # rest" "m1 \<noteq> []" "list_all is_digit m1"
        by auto
      then show ?thesis by blast
    next
      case None
      with Cons.prems have "match_range cs \<noteq> None" by simp
      with Cons.IH obtain pre ds rest where
        "cs = pre @ ''bytes='' @ ds @ CHR ''-'' # rest" "ds \<noteq> []" "list_all is_digit ds" by blast
      then have "c # cs = (c # pre) @ ''bytes='' @ ds @ CHR ''-'' # rest" by simp
      with \<open>ds \<noteq> []\<close> \<open>list_all is_digit ds\<close> show ?thesis by blast
    qed
  qed
next
  assume "\<exists>pre ds rest. h = pre @ ''bytes='' @ ds @ CHR ''-'' # rest \<and> ds \<noteq> [] \<and> list_all is_digit ds"
  then obtain pre ds rest where h: "h = pre @ ''bytes='' @ ds @ CHR ''-'' # rest"
    and ds: "ds \<noteq> []" "list_all is_digit ds" by blast
  have "match_range (pre @ ''bytes='' @ ds @ CHR ''-'' # rest) \<noteq> None"
  proof (induction pre)
    case Nil
    then show ?case using match_range_form[OF ds, of rest] by simp
  next
    case (Cons c cs)
    then show ?case by (simp split: option.splits)
  qed
  then show "match_range h \<noteq> None" using h by simp
qed

lemma serve_status: "status (snd (serve fs p ct N h)) \<in> {200, 206, 416}"
  by (auto simp: serve_def send_def Let_def split: option.splits prod.splits)

lemma serve_206_matched:
  "status (snd (serve fs p ct N h)) = 206 \<Longrightarrow> \<exists>hdr. h = Some hdr \<and> hdr \<noteq> [] \<and> match_range hdr \<noteq> None"
  by (auto simp: serve_def send_def Let_def truthy_def split: option.splits prod.splits if_splits)

lemma on_catch_status: "status (on_catch err) \<in> {404, 500}"
  by (simp add: on_catch_def send_def)

lemma resolve_status: "resolve d n = Inl res \<Longrightarrow> status res \<in> {400, 404, 415, 500}"
  using on_catch_status
  by (auto simp: resolve_def send_def Let_def split: sum.splits if_splits)

lemma handler_206_matched:
  assumes "status (snd (stream_handler d fs n h)) = 206"
  shows "\<exists>hdr. h = Some hdr \<and> hdr \<noteq> [] \<and> match_range hdr \<noteq> None"
proof (cases "resolve d n")
  case (Inl res)
  then show ?thesis using assms resolve_status[OF Inl] by (auto simp: stream_handler_def)
next
  case (Inr sp)
  obtain safeName p where sp: "sp = (safeName, p)" by (cases sp)
  show ?thesis
  proof (cases "stat fs p")
    case (Inl err)
    then show ?thesis using assms Inr sp on_catch_status[of err] by (auto simp: stream_handler_def)
  next
    case (Inr N)
    then show ?thesis using assms \<open>resolve d n = Inr sp\<close> sp serve_206_matched
      by (auto simp: stream_handler_def)
  qed
qed

subsection \<open>The calls of the handler\<close>

lemma demo_stat_empty: "stat demo_fs (VIDEOS_DIR, ''empty.mp4'') = Inr 0"
  by (simp add: demo_fs_def demo_stat_def)

lemma demo_open_empty: "open_read demo_fs (VIDEOS_DIR, ''empty.mp4'') = Inr []"
  by (simp add: demo_fs_def demo_open_def)





lemma serve_calls:
  "fst (serve fs p ct N h) = [Stat p] \<and> status (snd (serve fs p ct N h)) = 416
   \<or> (\<exists>r. fst (serve fs p ct N h) = [Stat p, CreateReadStream p r]
           \<and> status (snd (serve fs p ct N h)) \<in> {200, 206})"
  by (auto simp: serve_def send_def Let_def split: option.splits prod.splits)

lemma handler_calls:
  "(fst (stream_handler d fs n h) = []
      \<and> status (snd (stream_handler d fs n h)) \<in> {400, 404, 415, 500})
   \<or> (\<exists>p. fst (stream_handler d fs n h) = [Stat p]
           \<and> status (snd (stream_handler d fs n h)) \<in> {404, 416, 500})
   \<or> (\<exists>p r. fst (stream_handler d fs n h) = [Stat p, CreateReadStream p r]
           \<and> status (snd (stream_handler d fs n h)) \<in> {200, 206})"
proof (cases "resolve d n")
  case (Inl res)
  then show ?thesis using resolve_status[OF Inl] by (simp add: stream_handler_def)
next
  case (Inr sp)
  obtain safeName p where sp: "sp = (safeName, p)" by (cases sp)
  show ?thesis
  proof (cases "stat fs p")
    case (Inl err)
    then show ?thesis using Inr sp on_catch_status[of err] by (auto simp: stream_handler_def)
  next
    case (Inr N)
    have "stream_handler d fs n h = serve fs p (getContentType safeName) N h"
      using Inr \<open>resolve d n = Inr sp\<close> sp by (simp add: stream_handler_def)
    then show ?thesis using serve_calls[of fs p "getContentType safeName" N h] by auto
  qed
qed

subsection \<open>Pieces of a file\<close>

lemma serve_zero_size:
  "hdr \<noteq> [] \<Longrightarrow> status (snd (serve fs p ct 0 (Some hdr))) = 416"
  using parseInt_nonneg
  by (auto simp: serve_def send_def truthy_def Let_def split: option.splits prod.splits)

lemma number_toString_nat: "number_toString (int n) = digits n"
  by (simp add: number_toString_def)

lemma piece_header:
  assumes "1 \<le> hi"
  shows "''bytes='' @ number_toString (int lo) @ ''-'' @ number_toString (int hi - 1)
         = ''bytes='' @ digits lo @ CHR ''-'' # digits (hi - 1)"
proof -
  have i: "int hi - 1 = int (hi - 1)" using assms by linarith
  have "number_toString (int hi - 1) = digits (hi - 1)"
    unfolding i by (rule number_toString_nat)
  then show ?thesis by (simp only: number_toString_nat append_Cons append_Nil)
qed

lemma piece_slice:
  assumes res: "resolve d n = Inr (safeName, p)"
    and st: "stat fs p = Inr (length content)"
    and op: "open_read fs p = Inr content"
    and lh: "lo \<le> hi" and h1: "1 \<le> hi" and hN: "hi \<le> length content"
  shows "piece_body d fs n (int lo) (int hi) = take (hi - lo) (drop lo content)"
proof -
  let ?hdr = "''bytes='' @ digits lo @ CHR ''-'' # digits (hi - 1)"
  have ne: "?hdr \<noteq> []" by simp
  have m: "match_range ?hdr = Some (digits lo, digits (hi - 1))"
    using match_range_form[OF digits_nonempty digits_all_digit, of lo "digits (hi - 1)"]
    by (simp add: takeWhile_all digits_all_digit)
  have e: "snd (stream_handler d fs n (Some ?hdr))
           = snd (serve fs p (getContentType safeName) (length content) (Some ?hdr))"
    using res st by (simp add: stream_handler_def)
  show ?thesis
  proof (cases "lo < hi")
    case True
    then have b: "lo \<le> hi - 1" "hi - 1 < length content" using hN by simp_all
    have s: "serve fs p (getContentType safeName) (length content) (Some ?hdr)
       = ([Stat p, CreateReadStream p (Some (int lo, int (hi - 1)))],
      \<lparr>status = 206,
       headers = [(''Content-Range'', Str (''bytes '' @ digits lo @ ''-'' @ digits (hi - 1) @ ''/'' @ digits (length content))),
                  (''Accept-Ranges'', Str ''bytes''),
                  (''Content-Length'', Num (int (hi - 1) - int lo + 1)),
                  (''Content-Type'', Str (getContentType safeName))],
       body = Bytes (pipe (createReadStream fs p (Some (int lo, int (hi - 1)))))\<rparr>)"
      by (rule serve_range[OF m ne parseInt_digits _ b]) (simp add: digits_nonempty parseInt_digits)
    have "nat (int (hi - 1) - int lo + 1) = hi - lo" using True by simp
    then have "pipe (createReadStream fs p (Some (int lo, int (hi - 1)))) = take (hi - lo) (drop lo content)"
      using op by (simp add: pipe_def createReadStream_def)
    then show ?thesis
      unfolding piece_body_def piece_header[OF h1] e s by simp
  next
    case False
    then have eq: "hi = lo" using lh by simp
    have "snd (serve fs p (getContentType safeName) (length content) (Some ?hdr))
          = send 416 ''Requested range not satisfiable.''"
      unfolding serve_matched[OF ne m] using eq h1
      by (simp add: Let_def digits_nonempty parseInt_digits)
    then show ?thesis
      unfolding piece_body_def piece_header[OF h1] e using eq by (simp add: send_def)
  qed
qed

lemma piece_zero_size:
  assumes res: "resolve d n = Inr (safeName, p)" and st: "stat fs p = Inr 0"
  shows "piece_body d fs n lo hi = []"
proof -
  let ?hdr = "''bytes='' @ number_toString lo @ ''-'' @ number_toString (hi - 1)"
  have "status (snd (stream_handler d fs n (Some ?hdr))) = 416"
    using res st serve_zero_size[of ?hdr fs p "getContentType safeName"]
    by (simp add: stream_handler_def)
  then show ?thesis by (simp add: piece_body_def)
qed

subsection \<open>Sorting with a comparison function\<close>









lemma demo_listing:
  "list_handler codepoint_compare demo_fs
   = \<lparr>json_status = 200, json_body = MediaLists [] [''a.jpeg'', ''b.JPG'']\<rparr>"
  by code_simp

subsection \<open>The sample directories\<close>




section \<open>The streaming endpoint\<close>

text \<open>
  Claim C1. Let the requested name resolve to a file whose \<^verbatim>\<open>stat\<close> size is the length
  \<open>N\<close> of its content, and let \<open>a \<le> b < N\<close>. A request with the header
  \<^verbatim>\<open>Range: bytes=a-b\<close>, or \<^verbatim>\<open>Range: bytes=a-\<close> when \<open>b = N - 1\<close>, is answered with status
  206, the headers \<^verbatim>\<open>Content-Range: bytes a-b/N\<close>, \<^verbatim>\<open>Accept-Ranges: bytes\<close>,
  \<^verbatim>\<open>Content-Length: b - a + 1\<close> and the content type of the name, and a body that consists
  of the bytes of the file at the offsets \<open>a, \<dots>, b\<close>, which are \<open>b - a + 1\<close> bytes.
\<close>

theorem range_request_partial_content:
  assumes res: "resolve decodeURIComponent param_name = Inr (safeName, videoPath)"
    and st: "stat fs videoPath = Inr (length content)"
    and op: "open_read fs videoPath = Inr content"
    and ab: "a \<le> b" and bN: "b < length content"
    and hdr: "hdr = ''bytes='' @ digits a @ ''-'' @ digits b
              \<or> (hdr = ''bytes='' @ digits a @ ''-'' \<and> b = length content - 1)"
  shows "snd (stream_handler decodeURIComponent fs param_name (Some hdr)) =
           \<lparr>status = 206,
            headers = [(''Content-Range'',
                          Str (''bytes '' @ digits a @ ''-'' @ digits b @ ''/'' @ digits (length content))),
                       (''Accept-Ranges'', Str ''bytes''),
                       (''Content-Length'', Num (int b - int a + 1)),
                       (''Content-Type'', Str (getContentType safeName))],
            body = Bytes (map ((!) content) [a..<Suc b])\<rparr>
         \<and> int (length (map ((!) content) [a..<Suc b])) = int b - int a + 1"
proof -
  have ne: "hdr \<noteq> []" using hdr by auto
  have "\<exists>m2. match_range hdr = Some (digits a, m2) \<and> (if m2 \<noteq> [] then parseInt m2 else int (length content) - 1) = int b"
  proof (rule disjE[OF hdr])
    assume h: "hdr = ''bytes='' @ digits a @ ''-'' @ digits b"
    have "match_range hdr = Some (digits a, takeWhile is_digit (digits b))"
      unfolding h using match_range_form[OF digits_nonempty digits_all_digit, of a "digits b"] by simp
    then show ?thesis
      by (simp add: takeWhile_all digits_all_digit digits_nonempty parseInt_digits)
  next
    assume h: "hdr = ''bytes='' @ digits a @ ''-'' \<and> b = length content - 1"
    have "match_range hdr = Some (digits a, takeWhile is_digit [])"
      using h match_range_form[OF digits_nonempty digits_all_digit, of a "[]"] by simp
    then show ?thesis using h bN by auto
  qed
  then obtain m2 where m: "match_range hdr = Some (digits a, m2)"
    and e: "(if m2 \<noteq> [] then parseInt m2 else int (length content) - 1) = int b" by blast
  have "serve fs videoPath (getContentType safeName) (length content) (Some hdr) = 
     ([Stat videoPath, CreateReadStream videoPath (Some (int a, int b))],
      \<lparr>status = 206,
       headers = [(''Content-Range'', Str (''bytes '' @ digits a @ ''-'' @ digits b @ ''/'' @ digits (length content))),
                  (''Accept-Ranges'', Str ''bytes''),
                  (''Content-Length'', Num (int b - int a + 1)),
                  (''Content-Type'', Str (getContentType safeName))],
       body = Bytes (pipe (createReadStream fs videoPath (Some (int a, int b))))\<rparr>)"
    by (rule serve_range[OF m ne parseInt_digits e ab bN])
  then show ?thesis
    using res st pipe_slice[OF op ab bN] ab by (simp add: stream_handler_def)
qed

theorem range_request_partial_content_witness:
  "snd (stream_handler Inr demo_fs ''a.mp4'' (Some ''bytes=1-2'')) =
     \<lparr>status = 206,
      headers = [(''Content-Range'', Str ''bytes 1-2/3''), (''Accept-Ranges'', Str ''bytes''),
                 (''Content-Length'', Num 2), (''Content-Type'', Str ''video/mp4'')],
      body = Bytes [20, 30]\<rparr>"
proof -
  have r: "resolve Inr ''a.mp4'' = Inr (''a.mp4'', (VIDEOS_DIR, ''a.mp4''))"
    by code_simp
  have s: "stat demo_fs (VIDEOS_DIR, ''a.mp4'') = Inr (length [10, 20, 30 :: byte])"
    by (simp add: demo_fs_def demo_stat_def)
  have o: "open_read demo_fs (VIDEOS_DIR, ''a.mp4'') = Inr [10, 20, 30]"
    by (simp add: demo_fs_def demo_open_def)
  have d1: "digits (Suc 0) = ''1''" by code_simp
  have d2: "digits 2 = ''2''" by code_simp
  have d3: "digits (Suc (Suc (Suc 0))) = ''3''" by code_simp
  have g: "getContentType ''a.mp4'' = ''video/mp4''" by code_simp
  have u: "map ((!) [10, 20, 30 :: byte]) [Suc 0..<3] = [20, 30]" by (simp add: upt_rec)
  show ?thesis
    using range_request_partial_content[OF r s o, of 1 2 "''bytes=1-2''"]
    by (simp add: d1 d2 d3 g u)
qed

text \<open>
  Claim C4. Let the requested name resolve to a file whose \<^verbatim>\<open>stat\<close> size is the length of
  its content. A request without a Range header is answered with status 200, the header
  \<^verbatim>\<open>Content-Length\<close> equal to the file size (and the content type of the name), and a body
  equal to the whole content of the file, from offset 0.
\<close>

theorem full_file_without_range:
  assumes "resolve decodeURIComponent param_name = Inr (safeName, videoPath)"
    and "stat fs videoPath = Inr (length content)"
    and "open_read fs videoPath = Inr content"
  shows "snd (stream_handler decodeURIComponent fs param_name None) =
           \<lparr>status = 200,
            headers = [(''Content-Length'', Num (int (length content))),
                       (''Content-Type'', Str (getContentType safeName))],
            body = Bytes content\<rparr>"
  using assms
  by (simp add: stream_handler_def serve_def truthy_def pipe_def createReadStream_def)

theorem full_file_without_range_witness:
  "snd (stream_handler Inr demo_fs ''a.mp4'' None) =
     \<lparr>status = 200,
      headers = [(''Content-Length'', Num 3), (''Content-Type'', Str ''video/mp4'')],
      body = Bytes [10, 20, 30]\<rparr>"
proof -
  have s: "stat demo_fs (VIDEOS_DIR, ''a.mp4'') = Inr (length [10, 20, 30 :: byte])"
    by (simp add: demo_fs_def demo_stat_def)
  have o: "open_read demo_fs (VIDEOS_DIR, ''a.mp4'') = Inr [10, 20, 30]"
    by (simp add: demo_fs_def demo_open_def)
  show ?thesis
    using full_file_without_range[OF resolve_demo_a s o] by (simp add: content_type_mp4)
qed

text \<open>
  Claim C3. Let the name resolve, let \<^verbatim>\<open>stat\<close> report the size \<open>fileSize\<close>, and let the
  pattern match the header with the offsets \<open>start\<close> and \<open>end\<close> (the latter \<open>fileSize - 1\<close>
  when the second group is empty). The request is answered 416, as not satisfiable, exactly when
  \<open>start \<ge> fileSize\<close> or \<open>end \<ge> fileSize\<close> or \<open>start > end\<close>; otherwise it is answered 206 and
  the file is read from \<open>start\<close> to \<open>end\<close>. Whatever the header, a range handed to
  \<^verbatim>\<open>createReadStream\<close> satisfies \<open>0 \<le> start \<le> end < fileSize\<close>.
\<close>

theorem unsatisfiable_iff_out_of_bounds:
  assumes res: "resolve decodeURIComponent param_name = Inr (safeName, videoPath)"
    and st: "stat fs videoPath = Inr fileSize"
    and ne: "hdr \<noteq> []"
    and m: "match_range hdr = Some (m1, m2)"
    and s: "start = parseInt m1"
    and e: "end = (if m2 \<noteq> [] then parseInt m2 else int fileSize - 1)"
  shows "(snd (stream_handler decodeURIComponent fs param_name (Some hdr))
            = send 416 ''Requested range not satisfiable.'')
           = (start \<ge> int fileSize \<or> end \<ge> int fileSize \<or> start > end)
       \<and> (status (snd (stream_handler decodeURIComponent fs param_name (Some hdr))) = 416)
           = (start \<ge> int fileSize \<or> end \<ge> int fileSize \<or> start > end)
       \<and> (status (snd (stream_handler decodeURIComponent fs param_name (Some hdr))) = 206)
           = (0 \<le> start \<and> start \<le> end \<and> end < int fileSize)
       \<and> (CreateReadStream videoPath (Some (start, end))
             \<in> set (fst (stream_handler decodeURIComponent fs param_name (Some hdr))))
           = (0 \<le> start \<and> start \<le> end \<and> end < int fileSize)
       \<and> (\<forall>h q s' e'. CreateReadStream q (Some (s', e'))
               \<in> set (fst (stream_handler decodeURIComponent fs param_name h))
             \<longrightarrow> q = videoPath \<and> 0 \<le> s' \<and> s' \<le> e' \<and> e' < int fileSize)"
proof -
  have h: "stream_handler decodeURIComponent fs param_name (Some hdr)
         = serve fs videoPath (getContentType safeName) fileSize (Some hdr)"
    using res st by (simp add: stream_handler_def)
  have nn: "0 \<le> start" using s parseInt_nonneg by simp
  have inv: "\<forall>h q s' e'. CreateReadStream q (Some (s', e'))
               \<in> set (fst (stream_handler decodeURIComponent fs param_name h))
             \<longrightarrow> q = videoPath \<and> 0 \<le> s' \<and> s' \<le> e' \<and> e' < int fileSize"
    using res st serve_stream_bounds by (auto simp: stream_handler_def)
  show ?thesis
    unfolding h serve_matched[OF ne m]
    using nn inv s e by (auto simp: Let_def send_def)
qed

theorem unsatisfiable_iff_out_of_bounds_witness:
  "status (snd (stream_handler Inr demo_fs ''a.mp4'' (Some ''bytes=3-13''))) = 416
   \<and> status (snd (stream_handler Inr demo_fs ''a.mp4'' (Some ''bytes=0-2''))) = 206"
proof -
  have m1: "match_range ''bytes=3-13'' = Some (''3'', ''13'')" by code_simp
  have m2: "match_range ''bytes=0-2'' = Some (''0'', ''2'')" by code_simp
  have p0: "parseInt ''0'' = 0" by code_simp
  have p2: "parseInt ''2'' = 2" by code_simp
  have p3: "parseInt ''3'' = 3" by code_simp
  have p13: "parseInt ''13'' = 13" by code_simp
  from unsatisfiable_iff_out_of_bounds[OF resolve_demo_a demo_stat_a _ m1 refl refl]
  have a: "status (snd (stream_handler Inr demo_fs ''a.mp4'' (Some ''bytes=3-13''))) = 416"
    by (simp add: p3 p13 send_def)
  from unsatisfiable_iff_out_of_bounds[OF resolve_demo_a demo_stat_a _ m2 refl refl]
  have b: "status (snd (stream_handler Inr demo_fs ''a.mp4'' (Some ''bytes=0-2''))) = 206"
    by (simp add: p0 p2 send_def)
  from a b show ?thesis by simp
qed

text \<open>
  Claim C2 says that every present Range header that is not of the single-range form
  \<^verbatim>\<open>bytes=<start>-<end?>\<close>, multi-range headers in particular, is rejected with 416 and
  never served with 206. The pattern of the handler has no anchors: the multi-range header
  \<^verbatim>\<open>bytes=0-1,2-2\<close> is not of the single-range form, and the request is answered 206, from
  the first range.
\<close>

theorem multi_range_served_counterexample:
  "\<not> single_range_form ''bytes=0-1,2-2''
   \<and> status (snd (stream_handler Inr demo_fs ''a.mp4'' (Some ''bytes=0-1,2-2''))) = 206"
  by code_simp

text \<open>
  Claim C2, amended. Let the name resolve and \<^verbatim>\<open>stat\<close> succeed. Every non-empty Range header
  in which the pattern \<^verbatim>\<open>bytes=<digits>-\<close> occurs nowhere is answered 416, as malformed, after
  the \<^verbatim>\<open>stat\<close> and without opening the file; every suffix-form header \<^verbatim>\<open>bytes=-<digits>\<close>
  is such a header. A 206 is only ever served from a non-empty header in which the pattern
  occurs (\<open>match_range_iff_occurrence\<close> says where it does).
\<close>

theorem unmatched_range_rejected:
  assumes res: "resolve decodeURIComponent param_name = Inr (safeName, videoPath)"
    and st: "stat fs videoPath = Inr fileSize"
  shows "(hdr \<noteq> [] \<and> match_range hdr = None \<longrightarrow>
            stream_handler decodeURIComponent fs param_name (Some hdr)
              = ([Stat videoPath], send 416 ''Malformed Range header.''))
       \<and> (list_all is_digit ds \<longrightarrow>
            stream_handler decodeURIComponent fs param_name (Some (''bytes=-'' @ ds))
              = ([Stat videoPath], send 416 ''Malformed Range header.''))
       \<and> (status (snd (stream_handler decodeURIComponent fs param_name h)) = 206 \<longrightarrow>
            (\<exists>hdr'. h = Some hdr' \<and> hdr' \<noteq> [] \<and> match_range hdr' \<noteq> None))"
proof -
  have a: "hdr' \<noteq> [] \<Longrightarrow> match_range hdr' = None \<Longrightarrow>
           stream_handler decodeURIComponent fs param_name (Some hdr')
              = ([Stat videoPath], send 416 ''Malformed Range header.'')" for hdr'
    using res st by (simp add: stream_handler_def serve_def truthy_def)
  have b: "list_all is_digit ds \<longrightarrow>
            stream_handler decodeURIComponent fs param_name (Some (''bytes=-'' @ ds))
              = ([Stat videoPath], send 416 ''Malformed Range header.'')"
  proof
    assume d: "list_all is_digit ds"
    have "''bytes=-'' @ ds \<noteq> []" by simp
    then show "stream_handler decodeURIComponent fs param_name (Some (''bytes=-'' @ ds))
              = ([Stat videoPath], send 416 ''Malformed Range header.'')"
      using match_range_suffix_form[OF d] by (rule a)
  qed
  have c: "status (snd (stream_handler decodeURIComponent fs param_name h)) = 206 \<longrightarrow>
            (\<exists>hdr'. h = Some hdr' \<and> hdr' \<noteq> [] \<and> match_range hdr' \<noteq> None)"
    using handler_206_matched[of decodeURIComponent fs param_name h] by (rule impI)
  have a': "hdr \<noteq> [] \<and> match_range hdr = None \<longrightarrow>
            stream_handler decodeURIComponent fs param_name (Some hdr)
              = ([Stat videoPath], send 416 ''Malformed Range header.'')"
    using a[of hdr] by (intro impI) (elim conjE)
  from a' b c show ?thesis by (intro conjI)
qed

theorem unmatched_range_rejected_witness:
  "stream_handler Inr demo_fs ''a.mp4'' (Some ''bytes=-500'')
     = ([Stat (VIDEOS_DIR, ''a.mp4'')], send 416 ''Malformed Range header.'')
   \<and> stream_handler Inr demo_fs ''a.mp4'' (Some ''items=0-1'')
     = ([Stat (VIDEOS_DIR, ''a.mp4'')], send 416 ''Malformed Range header.'')"
proof -
  have d: "list_all is_digit ''500''" by code_simp
  have n: "match_range ''items=0-1'' = None" by code_simp
  note t = unmatched_range_rejected[OF resolve_demo_a demo_stat_a, of "''items=0-1''" "''500''" None]
  from t[THEN conjunct1] n
  have 1: "stream_handler Inr demo_fs ''a.mp4'' (Some ''items=0-1'')
     = ([Stat (VIDEOS_DIR, ''a.mp4'')], send 416 ''Malformed Range header.'')" by simp
  from t[THEN conjunct2, THEN conjunct1] d
  have 2: "stream_handler Inr demo_fs ''a.mp4'' (Some ''bytes=-500'')
     = ([Stat (VIDEOS_DIR, ''a.mp4'')], send 416 ''Malformed Range header.'')" by simp
  from 1 2 show ?thesis by simp
qed

text \<open>
  Claim C5 says that a request whose name fails the basename check or the extension check is
  answered 400 or 415 with no file access performed, both checks coming before any
  file-system operation for the request. The static middleware of line 29 runs before the
  route: for the name \<^verbatim>\<open>a.mp4.txt\<close> it has already looked \<^verbatim>\<open>api/stream/a.mp4.txt\<close> up under
  \<^verbatim>\<open>public\<close> with \<^verbatim>\<open>stat\<close> when the handler answers 415.
\<close>

theorem static_lookup_before_type_check_counterexample:
  "app_stream public_lookup Inr demo_fs
     \<lparr>req_path = ''/api/stream/a.mp4.txt'', req_name = ''a.mp4.txt'', req_range = None\<rparr>
   = ([Stat (PUBLIC_DIR, ''api/stream/a.mp4.txt'')], send 415 ''Unsupported media type.'')"
  by code_simp

text \<open>
  Claim C5, amended. Let the decoded name be \<open>requestedName\<close>. If it differs from its own
  basename, the route handler answers 400 and makes no file-system call of its own.
  Otherwise, if its lower-cased extension is none of \<^verbatim>\<open>.mp4\<close>, \<^verbatim>\<open>.webm\<close>, \<^verbatim>\<open>.jpg\<close>,
  \<^verbatim>\<open>.jpeg\<close>, the handler answers 415 and makes no file-system call of its own. Both answers
  are the same for every file system and every Range header. In the application, whatever
  the middleware in front of the route does, the file-system calls made for such a request
  that reaches the route are exactly those of the middleware.
\<close>

theorem invalid_name_or_type_rejected:
  assumes "decodeURIComponent param_name = Inr requestedName"
  shows "(basename requestedName \<noteq> requestedName \<longrightarrow>
            stream_handler decodeURIComponent fs param_name range_header
              = ([], send 400 ''Invalid file name.''))
       \<and> (basename requestedName = requestedName
            \<and> toLowerCase (extname requestedName) \<notin> {''.mp4'', ''.webm'', ''.jpg'', ''.jpeg''} \<longrightarrow>
            stream_handler decodeURIComponent fs param_name range_header
              = ([], send 415 ''Unsupported media type.''))
       \<and> (\<forall>static req ops.
             req_name req = param_name \<and> static fs req = (ops, None)
             \<and> (basename requestedName \<noteq> requestedName
                  \<or> toLowerCase (extname requestedName) \<notin> {''.mp4'', ''.webm'', ''.jpg'', ''.jpeg''})
             \<longrightarrow> fst (app_stream static decodeURIComponent fs req) = ops
                 \<and> status (snd (app_stream static decodeURIComponent fs req)) \<in> {400, 415})"
proof -
  have a: "basename requestedName \<noteq> requestedName \<Longrightarrow>
            stream_handler decodeURIComponent fs param_name h = ([], send 400 ''Invalid file name.'')" for h
    using assms by (simp add: stream_handler_def resolve_def Let_def)
  have b: "basename requestedName = requestedName \<Longrightarrow>
           toLowerCase (extname requestedName) \<notin> {''.mp4'', ''.webm'', ''.jpg'', ''.jpeg''} \<Longrightarrow>
            stream_handler decodeURIComponent fs param_name h = ([], send 415 ''Unsupported media type.'')" for h
    using assms
    by (simp add: stream_handler_def resolve_def Let_def ALLOWED_EXTENSIONS_def
                  VIDEO_EXTENSIONS_def IMAGE_EXTENSIONS_def)
  have c: "fst (app_stream static decodeURIComponent fs req) = ops
           \<and> status (snd (app_stream static decodeURIComponent fs req)) \<in> {400, 415}"
    if "req_name req = param_name" "static fs req = (ops, None)"
       "basename requestedName \<noteq> requestedName
         \<or> toLowerCase (extname requestedName) \<notin> {''.mp4'', ''.webm'', ''.jpg'', ''.jpeg''}"
    for static :: middleware and req ops
  proof (cases "basename requestedName = requestedName")
    case True
    with that(3) have "toLowerCase (extname requestedName) \<notin> {''.mp4'', ''.webm'', ''.jpg'', ''.jpeg''}"
      by blast
    from b[OF True this, of "req_range req"] that(1,2) show ?thesis
      by (simp add: app_stream_def send_def)
  next
    case False
    from a[OF False, of "req_range req"] that(1,2) show ?thesis
      by (simp add: app_stream_def send_def)
  qed
  from a[of range_header] b[of range_header] c show ?thesis by blast
qed

theorem invalid_name_or_type_rejected_witness:
  "stream_handler Inr demo_fs ''../a.mp4'' None = ([], send 400 ''Invalid file name.'')
   \<and> stream_handler Inr demo_fs ''a.mp4.txt'' None = ([], send 415 ''Unsupported media type.'')
   \<and> fst (app_stream public_lookup Inr demo_fs
             \<lparr>req_path = ''/api/stream/a.mp4.txt'', req_name = ''a.mp4.txt'', req_range = None\<rparr>)
       = [Stat (PUBLIC_DIR, ''api/stream/a.mp4.txt'')]"
proof -
  have b1: "basename ''../a.mp4'' \<noteq> ''../a.mp4''" by code_simp
  have b2: "basename ''a.mp4.txt'' = ''a.mp4.txt''" by code_simp
  have e2: "toLowerCase (extname ''a.mp4.txt'') = ''.txt''" by code_simp
  have l: "public_lookup demo_fs
             \<lparr>req_path = ''/api/stream/a.mp4.txt'', req_name = ''a.mp4.txt'', req_range = None\<rparr>
           = ([Stat (PUBLIC_DIR, ''api/stream/a.mp4.txt'')], None)" by code_simp
  from invalid_name_or_type_rejected[of Inr "''../a.mp4''" "''../a.mp4''" demo_fs None] b1
  have a: "stream_handler Inr demo_fs ''../a.mp4'' None = ([], send 400 ''Invalid file name.'')"
    by simp
  note t = invalid_name_or_type_rejected[of Inr "''a.mp4.txt''" "''a.mp4.txt''" demo_fs None]
  from t[THEN conjunct2, THEN conjunct1] b2 e2
  have b: "stream_handler Inr demo_fs ''a.mp4.txt'' None = ([], send 415 ''Unsupported media type.'')"
    by simp
  from t[THEN conjunct2, THEN conjunct2, rule_format, of
           "\<lparr>req_path = ''/api/stream/a.mp4.txt'', req_name = ''a.mp4.txt'', req_range = None\<rparr>"
           public_lookup "[Stat (PUBLIC_DIR, ''api/stream/a.mp4.txt'')]"] l e2
  have c: "fst (app_stream public_lookup Inr demo_fs
             \<lparr>req_path = ''/api/stream/a.mp4.txt'', req_name = ''a.mp4.txt'', req_range = None\<rparr>)
       = [Stat (PUBLIC_DIR, ''api/stream/a.mp4.txt'')]"
    by simp
  from a b c show ?thesis by simp
qed

text \<open>
  Claim C6 says that every validation error, range errors included, is returned before any
  file is accessed, so that a request with an invalid Range header never touches the file
  system. The handler calls \<^verbatim>\<open>stat\<close> before it looks at the Range header: a malformed header
  for an existing file is answered 416 after the \<^verbatim>\<open>stat\<close>, and for a missing file it is
  answered 404.
\<close>

theorem range_error_after_stat_counterexample:
  "stream_handler Inr demo_fs ''a.mp4'' (Some ''nonsense'')
     = ([Stat (VIDEOS_DIR, ''a.mp4'')], send 416 ''Malformed Range header.'')
   \<and> stream_handler Inr demo_fs ''missing.mp4'' (Some ''nonsense'')
     = ([Stat (VIDEOS_DIR, ''missing.mp4'')], send 404 ''Not found.'')"
  by code_simp

text \<open>
  Claim C6, amended. The route handler checks the name, then calls \<^verbatim>\<open>stat\<close> on the target,
  then parses the Range header and responds, stopping at the first failure. An answer 400 or
  415 is given before the handler makes any file-system call. An answer 416 is given after
  exactly one \<^verbatim>\<open>stat\<close> and before the file is opened. The file is opened only for the answers
  200 and 206.
\<close>

theorem validation_order:
  shows "(resolve decodeURIComponent param_name = Inl res \<longrightarrow>
            stream_handler decodeURIComponent fs param_name range_header = ([], res))
       \<and> (resolve decodeURIComponent param_name = Inr (safeName, videoPath)
            \<and> stat fs videoPath = Inl err \<longrightarrow>
            stream_handler decodeURIComponent fs param_name range_header
              = ([Stat videoPath], on_catch err))
       \<and> (resolve decodeURIComponent param_name = Inr (safeName, videoPath)
            \<and> stat fs videoPath = Inr fileSize \<longrightarrow>
            stream_handler decodeURIComponent fs param_name range_header
              = serve fs videoPath (getContentType safeName) fileSize range_header)
       \<and> (status (snd (stream_handler decodeURIComponent fs param_name range_header)) \<in> {400, 415} \<longrightarrow>
            fst (stream_handler decodeURIComponent fs param_name range_header) = [])
       \<and> (status (snd (stream_handler decodeURIComponent fs param_name range_header)) = 416 \<longrightarrow>
            (\<exists>p. fst (stream_handler decodeURIComponent fs param_name range_header) = [Stat p]))
       \<and> (\<forall>p r. CreateReadStream p r
                    \<in> set (fst (stream_handler decodeURIComponent fs param_name range_header)) \<longrightarrow>
            status (snd (stream_handler decodeURIComponent fs param_name range_header)) \<in> {200, 206})"
proof -
  let ?h = "stream_handler decodeURIComponent fs param_name range_header"
  have 1: "resolve decodeURIComponent param_name = Inl res \<longrightarrow> ?h = ([], res)"
    by (simp add: stream_handler_def)
  have 2: "resolve decodeURIComponent param_name = Inr (safeName, videoPath)
            \<and> stat fs videoPath = Inl err \<longrightarrow> ?h = ([Stat videoPath], on_catch err)"
    by (simp add: stream_handler_def)
  have 3: "resolve decodeURIComponent param_name = Inr (safeName, videoPath)
            \<and> stat fs videoPath = Inr fileSize \<longrightarrow>
            ?h = serve fs videoPath (getContentType safeName) fileSize range_header"
    by (simp add: stream_handler_def)
  note c = handler_calls[of decodeURIComponent fs param_name range_header]
  have 4: "status (snd ?h) \<in> {400, 415} \<longrightarrow> fst ?h = []"
    using c by auto
  have 5: "status (snd ?h) = 416 \<longrightarrow> (\<exists>p. fst ?h = [Stat p])"
    using c by auto
  have 6: "\<forall>p r. CreateReadStream p r \<in> set (fst ?h) \<longrightarrow> status (snd ?h) \<in> {200, 206}"
    using c by auto
  from 1 2 3 4 5 6 show ?thesis by (intro conjI)
qed

theorem validation_order_witness:
  "fst (stream_handler Inr demo_fs ''a.mp4'' (Some ''bytes=7-'')) = [Stat (VIDEOS_DIR, ''a.mp4'')]
   \<and> fst (stream_handler Inr demo_fs ''a.mp4.txt'' (Some ''bytes=7-'')) = []"
proof -
  have s1: "status (snd (stream_handler Inr demo_fs ''a.mp4'' (Some ''bytes=7-''))) = 416"
    by code_simp
  have s2: "status (snd (stream_handler Inr demo_fs ''a.mp4.txt'' (Some ''bytes=7-''))) = 415"
    by code_simp
  have r: "resolve Inr ''a.mp4'' = Inr (''a.mp4'', (VIDEOS_DIR, ''a.mp4''))" by (rule resolve_demo_a)
  note t = validation_order[of Inr "''a.mp4''" undefined demo_fs "Some ''bytes=7-''" "''a.mp4''"
             "(VIDEOS_DIR, ''a.mp4'')" undefined 3]
  from t[THEN conjunct2, THEN conjunct2, THEN conjunct1] r demo_stat_a
  have e: "stream_handler Inr demo_fs ''a.mp4'' (Some ''bytes=7-'')
           = serve demo_fs (VIDEOS_DIR, ''a.mp4'') (getContentType ''a.mp4'') 3 (Some ''bytes=7-'')"
    by simp
  from t[THEN conjunct2, THEN conjunct2, THEN conjunct2, THEN conjunct2, THEN conjunct1] s1
  obtain p where p: "fst (stream_handler Inr demo_fs ''a.mp4'' (Some ''bytes=7-'')) = [Stat p]"
    by blast
  have "fst (serve demo_fs (VIDEOS_DIR, ''a.mp4'') (getContentType ''a.mp4'') 3 (Some ''bytes=7-''))
        = [Stat (VIDEOS_DIR, ''a.mp4'')]"
    using p serve_calls[of demo_fs "(VIDEOS_DIR, ''a.mp4'')" "getContentType ''a.mp4''" 3 "Some ''bytes=7-''"]
    unfolding e by auto
  then have a: "fst (stream_handler Inr demo_fs ''a.mp4'' (Some ''bytes=7-'')) = [Stat (VIDEOS_DIR, ''a.mp4'')]"
    unfolding e .
  from validation_order[of Inr "''a.mp4.txt''" undefined demo_fs "Some ''bytes=7-''" undefined undefined undefined undefined,
         THEN conjunct2, THEN conjunct2, THEN conjunct2, THEN conjunct1] s2
  have b: "fst (stream_handler Inr demo_fs ''a.mp4.txt'' (Some ''bytes=7-'')) = []" by simp
  from a b show ?thesis by simp
qed




text \<open>
  Claim C10 says that for a file of size zero every present Range header is answered 416.
  A Range header with the empty value is present and falsy: the handler treats it as absent
  and answers 200.
\<close>

theorem empty_range_header_on_empty_file_counterexample:
  "stat demo_fs (VIDEOS_DIR, ''empty.mp4'') = Inr 0
   \<and> status (snd (stream_handler Inr demo_fs ''empty.mp4'' (Some []))) = 200"
  by code_simp

text \<open>
  Claim C10, amended. Let the name resolve to a file of size zero. Every non-empty Range
  header, \<^verbatim>\<open>bytes=0-\<close> included, is answered 416; no header is answered 206; a request without
  Range header is answered 200 with \<^verbatim>\<open>Content-Length\<close> 0 and an empty body, and so is a
  request whose Range header has the empty value.
\<close>

theorem empty_file_ranges:
  assumes res: "resolve decodeURIComponent param_name = Inr (safeName, videoPath)"
    and st: "stat fs videoPath = Inr 0"
    and op: "open_read fs videoPath = Inr []"
  shows "(hdr \<noteq> [] \<longrightarrow>
            status (snd (stream_handler decodeURIComponent fs param_name (Some hdr))) = 416)
       \<and> status (snd (stream_handler decodeURIComponent fs param_name (Some ''bytes=0-''))) = 416
       \<and> status (snd (stream_handler decodeURIComponent fs param_name h)) \<noteq> 206
       \<and> snd (stream_handler decodeURIComponent fs param_name None)
           = \<lparr>status = 200,
              headers = [(''Content-Length'', Num 0), (''Content-Type'', Str (getContentType safeName))],
              body = Bytes []\<rparr>
       \<and> stream_handler decodeURIComponent fs param_name (Some [])
           = stream_handler decodeURIComponent fs param_name None"
proof -
  have e: "stream_handler decodeURIComponent fs param_name h'
           = serve fs videoPath (getContentType safeName) 0 h'" for h'
    using res st by (simp add: stream_handler_def)
  have a: "hdr' \<noteq> [] \<Longrightarrow> status (snd (serve fs videoPath ct 0 (Some hdr'))) = 416" for hdr' ct
    using parseInt_nonneg
    by (auto simp: serve_def send_def truthy_def Let_def split: option.splits prod.splits)
  have 1: "hdr \<noteq> [] \<longrightarrow> status (snd (stream_handler decodeURIComponent fs param_name (Some hdr))) = 416"
    unfolding e using a by blast
  have 2: "status (snd (stream_handler decodeURIComponent fs param_name (Some ''bytes=0-''))) = 416"
    unfolding e by (rule a) simp
  have 3: "status (snd (stream_handler decodeURIComponent fs param_name h)) \<noteq> 206"
  proof (cases "truthy h")
    case True
    then obtain hdr' where "h = Some hdr'" "hdr' \<noteq> []" by (auto simp: truthy_def split: option.splits)
    then show ?thesis unfolding e using a[of hdr'] by simp
  next
    case False
    then show ?thesis unfolding e by (simp add: serve_def)
  qed
  have 4: "snd (stream_handler decodeURIComponent fs param_name None)
           = \<lparr>status = 200,
              headers = [(''Content-Length'', Num 0), (''Content-Type'', Str (getContentType safeName))],
              body = Bytes []\<rparr>"
    unfolding e using op by (simp add: serve_def truthy_def pipe_def createReadStream_def)
  have 5: "stream_handler decodeURIComponent fs param_name (Some [])
           = stream_handler decodeURIComponent fs param_name None"
    unfolding e by (simp add: serve_def truthy_def)
  from 1 2 3 4 5 show ?thesis by (intro conjI)
qed

theorem empty_file_ranges_witness:
  "status (snd (stream_handler Inr demo_fs ''empty.mp4'' (Some ''bytes=0-''))) = 416
   \<and> snd (stream_handler Inr demo_fs ''empty.mp4'' None)
       = \<lparr>status = 200,
          headers = [(''Content-Length'', Num 0), (''Content-Type'', Str ''video/mp4'')],
          body = Bytes []\<rparr>"
proof -
  have g: "getContentType ''empty.mp4'' = ''video/mp4''" by code_simp
  note t = empty_file_ranges[OF resolve_demo_empty demo_stat_empty demo_open_empty]
  from t[THEN conjunct2, THEN conjunct1] t[THEN conjunct2, THEN conjunct2, THEN conjunct2, THEN conjunct1] g
  show ?thesis by simp
qed

text \<open>
  Claim C9 says that for \<open>0 \<le> k \<le> m \<le> N\<close> the bodies of the successful requests
  \<^verbatim>\<open>bytes=0-(k-1)\<close>, \<^verbatim>\<open>bytes=k-(m-1)\<close>, \<^verbatim>\<open>bytes=m-(N-1)\<close>, concatenated, are the file. For
  \<open>k = 0\<close> the first header reads \<^verbatim>\<open>bytes=0--1\<close>; the pattern matches its beginning
  \<^verbatim>\<open>bytes=0-\<close>, and the request succeeds with the whole file: with \<open>k = 0\<close>, \<open>m = 1\<close> on a
  file of three bytes the concatenation holds the file and then its three bytes again.
\<close>

theorem duplicated_first_piece_counterexample:
  "open_read demo_fs (VIDEOS_DIR, ''a.mp4'') = Inr [10, 20, 30]
   \<and> piece_body Inr demo_fs ''a.mp4'' 0 0 @ piece_body Inr demo_fs ''a.mp4'' 0 1
       @ piece_body Inr demo_fs ''a.mp4'' 1 3 = [10, 20, 30, 10, 20, 30]"
  by code_simp

text \<open>
  Claim C9, amended. Let the name resolve to a file whose \<^verbatim>\<open>stat\<close> size is the length \<open>N\<close> of
  its content, and let \<open>k \<le> m \<le> N\<close> with \<open>0 < k\<close> (or the file empty). Concatenating what
  the requests \<^verbatim>\<open>bytes=0-(k-1)\<close>, \<^verbatim>\<open>bytes=k-(m-1)\<close>, \<^verbatim>\<open>bytes=m-(N-1)\<close> deliver, where a
  request that is not answered 206 delivers nothing, gives the content of the file exactly.
\<close>

theorem range_pieces_concatenate:
  assumes res: "resolve decodeURIComponent param_name = Inr (safeName, videoPath)"
    and st: "stat fs videoPath = Inr (length content)"
    and op: "open_read fs videoPath = Inr content"
    and k0: "0 < k \<or> content = []" and km: "k \<le> m" and mN: "m \<le> length content"
  shows "piece_body decodeURIComponent fs param_name 0 (int k)
         @ piece_body decodeURIComponent fs param_name (int k) (int m)
         @ piece_body decodeURIComponent fs param_name (int m) (int (length content))
         = content"
proof (cases "content = []")
  case True
  then have "stat fs videoPath = Inr 0" using st by simp
  from piece_zero_size[OF res this] True show ?thesis by simp
next
  case False
  with k0 have k: "1 \<le> k" by simp
  have a: "piece_body decodeURIComponent fs param_name 0 (int k) = take k content"
    using piece_slice[OF res st op, of 0 k] k km mN by simp
  have b: "piece_body decodeURIComponent fs param_name (int k) (int m) = take (m - k) (drop k content)"
    using piece_slice[OF res st op, of k m] k km mN by simp
  have c: "piece_body decodeURIComponent fs param_name (int m) (int (length content))
           = drop m content"
    using piece_slice[OF res st op, of m "length content"] k km mN by simp
  have "take (m - k) (drop k content) @ drop m content = drop k content"
  proof -
    have "drop (m - k) (drop k content) = drop m content" using km by simp
    then show ?thesis by (metis append_take_drop_id)
  qed
  then show ?thesis unfolding a b c by simp
qed

theorem range_pieces_concatenate_witness:
  "piece_body Inr demo_fs ''a.mp4'' 0 1 @ piece_body Inr demo_fs ''a.mp4'' 1 1
     @ piece_body Inr demo_fs ''a.mp4'' 1 3 = [10, 20, 30]"
proof -
  have s: "stat demo_fs (VIDEOS_DIR, ''a.mp4'') = Inr (length [10, 20, 30 :: byte])"
    by (simp add: demo_fs_def demo_stat_def)
  have o: "open_read demo_fs (VIDEOS_DIR, ''a.mp4'') = Inr [10, 20, 30]"
    by (simp add: demo_fs_def demo_open_def)
  from range_pieces_concatenate[OF resolve_demo_a s o, of 1 1] show ?thesis by simp
qed

section \<open>The listing endpoint\<close>



end
